theory Spec2Isabelle
  imports Main
begin

section \<open>Data model of \<^verbatim>\<open>src/index.tsx\<close>\<close>

text \<open>
  The chat component keeps three pieces of React state: the transcript \<open>messages\<close>, the
  draft \<open>input\<close> and the flag \<open>isLoading\<close>. A \<open>Message\<close> is the interface of
  lines 9--13; the optional \<open>imageUrl\<close> is an \<open>option\<close>.

  JavaScript strings are sequences of UTF-16 code units. A \<open>string\<close> here is a list of
  code units below 256 (ASCII and Latin-1), the range on which \<open>toLowerCase\<close> and
  \<open>trim\<close> are character-wise and are written out in full below.
\<close>

datatype sender = User | Ai

record Message =
  "text" :: string
  sender :: sender
  imageUrl :: "string option"

record app_state =
  messages :: "Message list"
  input :: string
  isLoading :: bool

text \<open>Lines 16--23: the initial values given to \<open>React.useState\<close>.\<close>

definition greeting :: string where
  "greeting = ''Hello! I am Kohli AI, your smart and friendly assistant for everything related to industrial spindle technology. How can I assist you today?''"

definition initial_state :: app_state where
  "initial_state =
     \<lparr>messages = [\<lparr>text = greeting, sender = Ai, imageUrl = None\<rparr>],
      input = [],
      isLoading = False\<rparr>"

section \<open>The string operations the handler uses\<close>

text \<open>
  \<open>String.prototype.toLowerCase\<close> on code units below 256: \<open>A\<close>--\<open>Z\<close> (65--90) and the
  Latin-1 capitals 192--222 except the multiplication sign 215 move up by 32; every other
  code unit is kept.
\<close>

definition lower_char :: "char \<Rightarrow> char" where
  "lower_char c =
     (let n = (of_char c :: nat)
      in if (65 \<le> n \<and> n \<le> 90) \<or> (192 \<le> n \<and> n \<le> 222 \<and> n \<noteq> 215)
         then char_of (n + 32) else c)"

definition toLowerCase :: "string \<Rightarrow> string" where
  "toLowerCase s = map lower_char s"

text \<open>
  \<open>String.prototype.trim\<close> strips white space and line terminators from both ends. Below
  256 these are TAB, LF, VT, FF, CR, SPACE and NBSP.
\<close>

definition is_whitespace :: "char \<Rightarrow> bool" where
  "is_whitespace c = ((of_char c :: nat) \<in> set [9, 10, 11, 12, 13, 32, 160])"

definition trim :: "string \<Rightarrow> string" where
  "trim s = rev (dropWhile is_whitespace (rev (dropWhile is_whitespace s)))"

definition startsWith :: "string \<Rightarrow> string \<Rightarrow> bool" where
  "startsWith s p = (take (length p) s = p)"

definition substring :: "string \<Rightarrow> nat \<Rightarrow> string" where
  "substring s start = drop start s"

section \<open>The backend, as the handler sees it\<close>

text \<open>
  The two calls into \<open>@google/genai\<close> are the environment of the handler. An awaited call
  either rejects or fulfils. \<open>generateImages\<close> fulfils with the \<open>imageBytes\<close> of the
  entries of \<open>response.generatedImages\<close>; \<open>sendMessageStream\<close> fulfils with an async
  iterator, which delivers a finite run of chunks and then is exhausted (\<open>Done\<close>) or
  throws (\<open>Throw\<close>). The handler reads a chunk through \<open>chunk.text\<close> only, which is a
  string, or \<open>undefined\<close> (\<open>None\<close>) for a chunk without a text part. \<open>chat_current\<close>
  says whether \<open>chat.current\<close> is non-null. A call that never settles and a stream that never
  ends have no value here: the handler has no timeout, and its run is described for
  backends that answer.
\<close>

datatype error = ChatNotInitialized | BackendFailure | TypeError

datatype 'a settled = Rejected | Fulfilled 'a

datatype chunk_stream = Done | Throw | Chunk "string option" chunk_stream

record image_config =
  numberOfImages :: nat
  outputMimeType :: string

record image_request =
  model :: string
  prompt :: string
  config :: image_config

datatype request = GenerateImages image_request | SendMessageStream string

record env =
  chat_current :: bool
  generateImages :: "image_request \<Rightarrow> string list settled"
  sendMessageStream :: "string \<Rightarrow> chunk_stream settled"

section \<open>What the handler does, call by call\<close>

text \<open>
  \<open>handleSendMessage\<close> reads \<open>input\<close> and \<open>isLoading\<close> once, at its guard; everything
  after that goes through state setters and backend calls. An \<open>event\<close> is one such call:
  \<^item> \<open>Append m\<close> is \<open>setMessages(prev => [...prev, m])\<close> (lines 51, 82, 89, 104);
  \<^item> \<open>SetLastText t\<close> is the updater of lines 94--98, which writes \<open>t\<close> into the text of
    the last element;
  \<^item> \<open>SetInput\<close> and \<open>SetIsLoading\<close> are the two plain setters;
  \<^item> \<open>Call r\<close> is an awaited backend request, \<open>AwaitNext\<close> the await of the next chunk
    in the \<open>for await\<close> loop; the handler is suspended at exactly these events;
  \<^item> \<open>ConsoleError\<close> is the \<open>console.error\<close> of line 102.

  Updaters are applied in the order they are queued, each when it is queued. React may
  run a queued updater later; the updater of lines 94--98 then reads the variable
  \<open>fullResponse\<close> as it is at that moment, which is the text of a later update of the
  same slot, so the run ends in the same state.
\<close>

datatype event =
    Append Message
  | SetLastText string
  | SetInput string
  | SetIsLoading bool
  | Call request
  | AwaitNext
  | ConsoleError error

text \<open>
  Lines 94--98. On an empty array \<open>newMessages[-1]\<close> is \<open>undefined\<close> and the
  assignment to its \<open>text\<close> throws a \<open>TypeError\<close>. The spread of line 95 copies the
  array, not its elements, so the assignment writes into the object that \<open>prev\<close> holds
  too. Every element of the transcript comes from an object literal of its own (lines
  17, 50, 77, 89 and 103), so no other slot holds that object, and the write is the
  replacement of the last slot by a message that differs in its \<open>text\<close>.
\<close>

definition set_last_text :: "string \<Rightarrow> Message list \<Rightarrow> error + Message list" where
  "set_last_text fullResponse prev =
     (let newMessages = prev
      in if newMessages = [] then Inl TypeError
         else Inr (newMessages[length newMessages - 1 :=
                     (newMessages ! (length newMessages - 1))\<lparr>text := fullResponse\<rparr>]))"

fun apply_event :: "event \<Rightarrow> app_state \<Rightarrow> error + app_state" where
  "apply_event (Append m) s = Inr (s\<lparr>messages := messages s @ [m]\<rparr>)"
| "apply_event (SetLastText t) s =
     (case set_last_text t (messages s) of
        Inl e \<Rightarrow> Inl e
      | Inr ms \<Rightarrow> Inr (s\<lparr>messages := ms\<rparr>))"
| "apply_event (SetInput v) s = Inr (s\<lparr>input := v\<rparr>)"
| "apply_event (SetIsLoading v) s = Inr (s\<lparr>isLoading := v\<rparr>)"
| "apply_event (Call r) s = Inr s"
| "apply_event AwaitNext s = Inr s"
| "apply_event (ConsoleError e) s = Inr s"

text \<open>The state after a run of events; an updater that throws stops the run.\<close>

fun replay :: "event list \<Rightarrow> app_state \<Rightarrow> error + app_state" where
  "replay [] s = Inr s"
| "replay (e # es) s =
     (case apply_event e s of
        Inl err \<Rightarrow> Inl err
      | Inr s' \<Rightarrow> replay es s')"

subsection \<open>Lines 57--66: the image command\<close>

definition imageCommand :: string where
  "imageCommand = ''generate image of ''"

definition imageCommandAlt :: string where
  "imageCommandAlt = ''generate an image of ''"

text \<open>
  \<open>classify\<close> is the \<open>if\<close>/\<open>else if\<close> of lines 62--66: \<open>Some r\<close> when one of the two arms
  assigns \<open>r\<close> to \<open>prompt\<close>, \<open>None\<close> when neither arm runs and \<open>prompt\<close> keeps the
  \<open>''\<close> of line 60. \<open>extract_prompt\<close> is the value of \<open>prompt\<close> at line 68.
\<close>

definition classify :: "string \<Rightarrow> string option" where
  "classify currentInput =
     (let lowercasedInput = toLowerCase currentInput
      in if startsWith lowercasedInput imageCommand
         then Some (substring currentInput (length imageCommand))
         else if startsWith lowercasedInput imageCommandAlt
         then Some (substring currentInput (length imageCommandAlt))
         else None)"

definition extract_prompt :: "string \<Rightarrow> string" where
  "extract_prompt currentInput =
     (case classify currentInput of None \<Rightarrow> [] | Some r \<Rightarrow> r)"

subsection \<open>Lines 68--82: the image path\<close>

definition wrap_prompt :: "string \<Rightarrow> string" where
  "wrap_prompt p = ''A high-quality, detailed image of '' @ p @ '' in an industrial setting.''"

definition image_request_for :: "string \<Rightarrow> image_request" where
  "image_request_for p =
     \<lparr>model = ''imagen-3.0-generate-002'',
      prompt = wrap_prompt p,
      config = \<lparr>numberOfImages = 1, outputMimeType = ''image/png''\<rparr>\<rparr>"

definition confirmation_text :: "string \<Rightarrow> string" where
  \<open>confirmation_text p = ''Here is the image of "'' @ p @ ''" you requested.''\<close>

definition data_uri :: "string \<Rightarrow> string" where
  "data_uri base64ImageBytes = ''data:image/png;base64,'' @ base64ImageBytes"

text \<open>
  Each part of the \<open>try\<close> block gives the events it performed and the exception it threw,
  if any. Reading \<open>generatedImages[0]\<close> of an empty result throws a \<open>TypeError\<close>.
\<close>

definition image_path :: "env \<Rightarrow> string \<Rightarrow> event list \<times> error option" where
  "image_path b p =
     (let req = image_request_for p
      in case generateImages b req of
           Rejected \<Rightarrow> ([Call (GenerateImages req)], Some BackendFailure)
         | Fulfilled generatedImages \<Rightarrow>
             (case generatedImages of
                [] \<Rightarrow> ([Call (GenerateImages req)], Some TypeError)
              | base64ImageBytes # _ \<Rightarrow>
                  ([Call (GenerateImages req),
                    Append \<lparr>text = confirmation_text p, sender = Ai,
                            imageUrl = Some (data_uri base64ImageBytes)\<rparr>],
                   None)))"

subsection \<open>Lines 85--99: the conversational path\<close>

text \<open>
  Line 93, \<open>fullResponse += chunk.text\<close>, has no guard: string concatenation turns an
  \<open>undefined\<close> text into the word \<open>undefined\<close>. \<open>text_of_chunk\<close> is what the line
  appends.
\<close>

definition text_of_chunk :: "string option \<Rightarrow> string" where
  "text_of_chunk chunk_text = (case chunk_text of None \<Rightarrow> ''undefined'' | Some t \<Rightarrow> t)"

text \<open>
  The \<open>for await\<close> loop of lines 91--99, with \<open>fullResponse\<close> as the accumulator.
\<close>

fun consume :: "chunk_stream \<Rightarrow> string \<Rightarrow> event list \<times> error option" where
  "consume Done fullResponse = ([AwaitNext], None)"
| "consume Throw fullResponse = ([AwaitNext], Some BackendFailure)"
| "consume (Chunk t rest) fullResponse =
     (let fullResponse' = fullResponse @ text_of_chunk t;
          (evs, thrown) = consume rest fullResponse'
      in (AwaitNext # SetLastText fullResponse' # evs, thrown))"

definition chat_path :: "env \<Rightarrow> string \<Rightarrow> event list \<times> error option" where
  "chat_path b currentInput =
     (if \<not> chat_current b then ([], Some ChatNotInitialized)
      else case sendMessageStream b currentInput of
             Rejected \<Rightarrow> ([Call (SendMessageStream currentInput)], Some BackendFailure)
           | Fulfilled stream \<Rightarrow>
               (let (evs, thrown) = consume stream []
                in (Call (SendMessageStream currentInput)
                      # Append \<lparr>text = [], sender = Ai, imageUrl = None\<rparr>
                      # evs,
                    thrown)))"

subsection \<open>Lines 46--108: the handler\<close>

text \<open>
  The run of the handler: the calls it makes, in order. The handler is a closure of one
  render, and its argument \<open>s\<close> holds the values of \<open>input\<close> and \<open>isLoading\<close> that
  this render captured; the guard of line 48 and lines 50--52 read these, not the state
  at the time of the call. The calls themselves do not depend on the transcript, so a
  run can be replayed on any state, also one that another run has changed meanwhile.
  \<open>e.preventDefault()\<close> of line 47 acts on the form event only and is not an event
  here. The three setters of lines 51--54 run before the first \<open>await\<close>, in one
  synchronous block; so does the whole run when \<open>chat.current\<close> is null.
\<close>

definition try_block :: "env \<Rightarrow> string \<Rightarrow> event list \<times> error option" where
  "try_block b currentInput =
     (let p = extract_prompt currentInput
      in if p \<noteq> [] then image_path b p else chat_path b currentInput)"

definition errorMessage :: Message where
  "errorMessage =
     \<lparr>text = ''Sorry, I encountered an error. Please try again.'', sender = Ai, imageUrl = None\<rparr>"

definition catch_block :: "error option \<Rightarrow> event list" where
  "catch_block thrown =
     (case thrown of
        None \<Rightarrow> []
      | Some err \<Rightarrow> [ConsoleError err, Append errorMessage])"

definition handleSendMessage :: "env \<Rightarrow> app_state \<Rightarrow> event list" where
  "handleSendMessage b s =
     (if trim (input s) = [] \<or> isLoading s then []
      else let userMessage = \<lparr>text = input s, sender = User, imageUrl = None\<rparr>;
               currentInput = input s;
               (evs, thrown) = try_block b currentInput
           in [Append userMessage, SetInput [], SetIsLoading True]
              @ evs @ catch_block thrown @ [SetIsLoading False])"

section \<open>Observations on runs, streams and sample inputs\<close>

text \<open>The backend requests and the appended messages of a run, in the order they happen.\<close>

fun calls :: "event list \<Rightarrow> request list" where
  "calls [] = []"
| "calls (Call r # es) = r # calls es"
| "calls (e # es) = calls es"

fun appended :: "event list \<Rightarrow> Message list" where
  "appended [] = []"
| "appended (Append m # es) = m # appended es"
| "appended (e # es) = appended es"

fun logged :: "event list \<Rightarrow> error list" where
  "logged [] = []"
| "logged (ConsoleError err # es) = err # logged es"
| "logged (e # es) = logged es"

fun sets_loading :: "event \<Rightarrow> bool" where
  "sets_loading (SetIsLoading v) = True"
| "sets_loading e = False"

text \<open>The events at which the handler is suspended: the three kinds of \<open>await\<close>.\<close>

fun suspends :: "event \<Rightarrow> bool" where
  "suspends (Call r) = True"
| "suspends AwaitNext = True"
| "suspends e = False"

text \<open>
  The \<open>chunk.text\<close> values a stream delivers, in delivery order; what line 93 appends
  for them; and whether the stream ends by throwing.
\<close>

fun fragments :: "chunk_stream \<Rightarrow> string option list" where
  "fragments Done = []"
| "fragments Throw = []"
| "fragments (Chunk t rest) = t # fragments rest"

fun chunk_texts :: "chunk_stream \<Rightarrow> string list" where
  "chunk_texts Done = []"
| "chunk_texts Throw = []"
| "chunk_texts (Chunk t rest) = text_of_chunk t # chunk_texts rest"

fun throws :: "chunk_stream \<Rightarrow> bool" where
  "throws Done = False"
| "throws Throw = True"
| "throws (Chunk t rest) = throws rest"

text \<open>
  Three sample backends and a sample state: one backend answers every request, one
  rejects image requests and breaks its stream after the first fragment, and one sends a
  chunk without a text part after the first fragment.
\<close>

definition sample_env :: env where
  "sample_env =
     \<lparr>chat_current = True,
      generateImages = (\<lambda>req. Fulfilled [''iVBORw0KGgo='']),
      sendMessageStream =
        (\<lambda>msg. Fulfilled (Chunk (Some ''Run it '') (Chunk (Some ''at 12000 rpm.'') Done)))\<rparr>"

definition failing_env :: env where
  "failing_env =
     \<lparr>chat_current = True,
      generateImages = (\<lambda>req. Rejected),
      sendMessageStream = (\<lambda>msg. Fulfilled (Chunk (Some ''Run it '') Throw))\<rparr>"

definition textless_env :: env where
  "textless_env =
     \<lparr>chat_current = True,
      generateImages = (\<lambda>req. Rejected),
      sendMessageStream = (\<lambda>msg. Fulfilled (Chunk (Some ''Run it '') (Chunk None Done)))\<rparr>"

definition typed :: "string \<Rightarrow> app_state" where
  "typed draft = initial_state\<lparr>input := draft\<rparr>"

section \<open>The initial state and the guard\<close>

text \<open>
  C10: before any submission the transcript holds exactly one message, from the
  assistant, with the fixed greeting and no image, and the loading flag is false.
\<close>

theorem initial_transcript:
  "messages initial_state \<noteq> []
   \<and> length (messages initial_state) = 1
   \<and> sender (hd (messages initial_state)) = Ai
   \<and> text (hd (messages initial_state)) = ''Hello! I am Kohli AI, your smart and friendly assistant for everything related to industrial spindle technology. How can I assist you today?''
   \<and> imageUrl (hd (messages initial_state)) = None
   \<and> isLoading initial_state = False"
  by (simp add: initial_state_def greeting_def)



section \<open>Replaying a run\<close>

lemma text_of_chunk_Some [simp]: "text_of_chunk (Some t) = t"
  by (simp add: text_of_chunk_def)

lemma text_of_chunk_None [simp]: "text_of_chunk None = ''undefined''"
  by (simp add: text_of_chunk_def)

lemma chunk_texts_fragments: "chunk_texts st = map text_of_chunk (fragments st)"
  by (induction st) simp_all

lemma chunk_texts_all_text:
  assumes "fragments st = map Some fs" shows "chunk_texts st = fs"
  using assms by (simp add: chunk_texts_fragments comp_def)

lemma replay_append:
  "replay (xs @ ys) s = (case replay xs s of Inl e \<Rightarrow> Inl e | Inr s' \<Rightarrow> replay ys s')"
  by (induction xs arbitrary: s) (auto split: sum.splits)

lemma set_last_text_snoc: "set_last_text t (ms @ [m]) = Inr (ms @ [m\<lparr>text := t\<rparr>])"
  by (simp add: set_last_text_def)

lemma consume_thrown: "snd (consume st acc) = (if throws st then Some BackendFailure else None)"
  by (induction st arbitrary: acc) (auto simp: split_def Let_def)

lemma replay_consume_take:
  assumes "text m = acc" and "k \<le> length (chunk_texts st)"
  shows "replay (take (2 * k) (fst (consume st acc))) \<lparr>messages = ms @ [m], input = i, isLoading = l\<rparr>
         = Inr \<lparr>messages = ms @ [m\<lparr>text := acc @ concat (take k (chunk_texts st))\<rparr>],
                input = i, isLoading = l\<rparr>"
  using assms
proof (induction st arbitrary: k acc m)
  case Done
  then show ?case by simp
next
  case Throw
  then show ?case by simp
next
  case (Chunk t rest)
  show ?case
  proof (cases k)
    case 0
    with Chunk.prems show ?thesis by simp
  next
    case (Suc j)
    have j: "j \<le> length (chunk_texts rest)" using Chunk.prems(2) Suc by simp
    have "replay (take (2 * j) (fst (consume rest (acc @ text_of_chunk t))))
            \<lparr>messages = ms @ [m\<lparr>text := acc @ text_of_chunk t\<rparr>], input = i, isLoading = l\<rparr>
          = Inr \<lparr>messages = ms @ [(m\<lparr>text := acc @ text_of_chunk t\<rparr>)\<lparr>text := (acc @ text_of_chunk t) @ concat (take j (chunk_texts rest))\<rparr>],
                 input = i, isLoading = l\<rparr>"
      by (rule Chunk.IH) (simp_all add: j)
    then show ?thesis
      using Suc by (simp add: split_def Let_def set_last_text_snoc)
  qed
qed

lemma length_consume: "length (fst (consume st acc)) = Suc (2 * length (chunk_texts st))"
  by (induction st arbitrary: acc) (auto simp: split_def Let_def)

lemma replay_consume:
  assumes "text m = acc"
  shows "replay (fst (consume st acc)) \<lparr>messages = ms @ [m], input = i, isLoading = l\<rparr>
         = Inr \<lparr>messages = ms @ [m\<lparr>text := acc @ concat (chunk_texts st)\<rparr>], input = i, isLoading = l\<rparr>"
  using assms
proof (induction st arbitrary: acc m)
  case (Chunk t rest)
  have "replay (fst (consume rest (acc @ text_of_chunk t))) \<lparr>messages = ms @ [m\<lparr>text := acc @ text_of_chunk t\<rparr>], input = i, isLoading = l\<rparr>
        = Inr \<lparr>messages = ms @ [(m\<lparr>text := acc @ text_of_chunk t\<rparr>)\<lparr>text := (acc @ text_of_chunk t) @ concat (chunk_texts rest)\<rparr>],
               input = i, isLoading = l\<rparr>"
    by (rule Chunk.IH) simp
  then show ?case
    by (simp add: split_def Let_def set_last_text_snoc)
qed simp_all

lemma handle_accepted:
  assumes "trim (input s) \<noteq> []" and "\<not> isLoading s"
  shows "handleSendMessage b s =
           [Append \<lparr>text = input s, sender = User, imageUrl = None\<rparr>, SetInput [], SetIsLoading True]
           @ fst (try_block b (input s)) @ catch_block (snd (try_block b (input s)))
           @ [SetIsLoading False]"
  using assms by (simp add: handleSendMessage_def split_def Let_def)


lemma calls_append: "calls (xs @ ys) = calls xs @ calls ys"
  by (induction xs rule: calls.induct) simp_all

lemma appended_append: "appended (xs @ ys) = appended xs @ appended ys"
  by (induction xs rule: appended.induct) simp_all

lemma logged_append: "logged (xs @ ys) = logged xs @ logged ys"
  by (induction xs rule: logged.induct) simp_all

lemma consume_quiet:
  "calls (fst (consume st acc)) = [] \<and> appended (fst (consume st acc)) = []
   \<and> logged (fst (consume st acc)) = []"
  by (induction st arbitrary: acc) (simp_all add: split_def Let_def)

lemma chat_path_Fulfilled:
  assumes "chat_current b" and "sendMessageStream b x = Fulfilled st"
  shows "fst (chat_path b x) =
           Call (SendMessageStream x) # Append \<lparr>text = [], sender = Ai, imageUrl = None\<rparr>
             # fst (consume st [])"
    and "snd (chat_path b x) = (if throws st then Some BackendFailure else None)"
  using assms by (simp_all add: chat_path_def split_def Let_def consume_thrown)

lemma try_block_chat: "extract_prompt x = [] \<Longrightarrow> try_block b x = chat_path b x"
  by (simp add: try_block_def)

lemma try_block_image: "extract_prompt x \<noteq> [] \<Longrightarrow> try_block b x = image_path b (extract_prompt x)"
  by (simp add: try_block_def)

section \<open>The conversational path\<close>

text \<open>
  C1 (as amended): when a submission is accepted (the trimmed input is non-empty and the
  loading flag is false), the input matches neither image-command prefix, the chat
  session exists, the stream is delivered to exhaustion without a failure and every
  chunk of it carries text (the fragments \<open>fs\<close>), the run appends exactly one user
  message and then exactly one assistant message, created with empty text, and the
  assistant message ends with the fragments concatenated in delivery order. What the run
  does with a chunk that carries no text is left out of the statement.
\<close>

theorem conversational_turn:
  assumes "trim (input s) \<noteq> []" and "\<not> isLoading s" and "classify (input s) = None"
    and "chat_current b" and "sendMessageStream b (input s) = Fulfilled st" and "\<not> throws st"
    and "fragments st = map Some fs"
  shows "appended (handleSendMessage b s)
           = [\<lparr>text = input s, sender = User, imageUrl = None\<rparr>,
              \<lparr>text = [], sender = Ai, imageUrl = None\<rparr>]
         \<and> replay (handleSendMessage b s) s
           = Inr \<lparr>messages = messages s @
                     [\<lparr>text = input s, sender = User, imageUrl = None\<rparr>,
                      \<lparr>text = concat fs, sender = Ai, imageUrl = None\<rparr>],
                  input = [], isLoading = False\<rparr>"
proof -
  have fs: "chunk_texts st = fs" using assms(7) by (rule chunk_texts_all_text)
  obtain ms i l where s: "s = \<lparr>messages = ms, input = i, isLoading = l\<rparr>"
    by (cases s) simp
  let ?u = "\<lparr>text = i, sender = User, imageUrl = None\<rparr>"
  let ?p = "\<lparr>text = [], sender = Ai, imageUrl = None\<rparr>"
  have ep: "extract_prompt i = []"
    using assms(3) by (simp add: extract_prompt_def s)
  have sent: "sendMessageStream b i = Fulfilled st"
    using assms(5) by (simp add: s)
  have evs: "handleSendMessage b s =
      [Append ?u, SetInput [], SetIsLoading True, Call (SendMessageStream i), Append ?p]
      @ fst (consume st []) @ [SetIsLoading False]"
    using assms(1,2,6) chat_path_Fulfilled [OF assms(4) sent]
    by (simp add: handle_accepted try_block_chat [OF ep] catch_block_def s)
  have "replay (fst (consume st [])) \<lparr>messages = (ms @ [?u]) @ [?p], input = [], isLoading = True\<rparr>
        = Inr \<lparr>messages = (ms @ [?u]) @ [?p\<lparr>text := [] @ concat (chunk_texts st)\<rparr>],
               input = [], isLoading = True\<rparr>"
    by (rule replay_consume) simp
  then have "replay (handleSendMessage b s) s
        = Inr \<lparr>messages = ms @ [?u, ?p\<lparr>text := concat (chunk_texts st)\<rparr>],
                 input = [], isLoading = False\<rparr>"
    unfolding evs by (simp add: replay_append s)
  moreover have "appended (handleSendMessage b s) = [?u, ?p]"
    unfolding evs by (simp add: appended_append consume_quiet)
  ultimately show ?thesis by (simp add: s fs)
qed

theorem conversational_turn_witness:
  "appended (handleSendMessage sample_env (typed ''What RPM?''))
     = [\<lparr>text = ''What RPM?'', sender = User, imageUrl = None\<rparr>,
        \<lparr>text = [], sender = Ai, imageUrl = None\<rparr>]
   \<and> replay (handleSendMessage sample_env (typed ''What RPM?'')) (typed ''What RPM?'')
     = Inr \<lparr>messages = messages initial_state @
               [\<lparr>text = ''What RPM?'', sender = User, imageUrl = None\<rparr>,
                \<lparr>text = ''Run it at 12000 rpm.'', sender = Ai, imageUrl = None\<rparr>],
            input = [], isLoading = False\<rparr>"
proof -
  have h1: "trim (input (typed ''What RPM?'')) \<noteq> []" by code_simp
  have h2: "\<not> isLoading (typed ''What RPM?'')" by (simp add: typed_def initial_state_def)
  have h3: "classify (input (typed ''What RPM?'')) = None" by code_simp
  have h4: "chat_current sample_env" by (simp add: sample_env_def)
  have h5: "sendMessageStream sample_env (input (typed ''What RPM?''))
            = Fulfilled (Chunk (Some ''Run it '') (Chunk (Some ''at 12000 rpm.'') Done))"
    by (simp add: sample_env_def)
  have h6: "\<not> throws (Chunk (Some ''Run it '') (Chunk (Some ''at 12000 rpm.'') Done))" by simp
  have h7: "fragments (Chunk (Some ''Run it '') (Chunk (Some ''at 12000 rpm.'') Done))
            = map Some [''Run it '', ''at 12000 rpm.'']" by simp
  show ?thesis
    using conversational_turn [OF h1 h2 h3 h4 h5 h6 h7]
    by (simp add: typed_def initial_state_def)
qed

text \<open>
  Without the provisos the statement fails. When the stream breaks after its first
  fragment, the run appends the user message and two assistant messages, the partly
  filled one and the apology. When the stream ends well but its second chunk carries no
  text, the assistant message ends with the word \<open>undefined\<close> after the one fragment
  that was streamed.
\<close>

theorem conversational_turn_counterexample:
  "trim (input (typed ''What RPM?'')) \<noteq> []
   \<and> \<not> isLoading (typed ''What RPM?'')
   \<and> classify (input (typed ''What RPM?'')) = None
   \<and> appended (handleSendMessage failing_env (typed ''What RPM?''))
       = [\<lparr>text = ''What RPM?'', sender = User, imageUrl = None\<rparr>,
          \<lparr>text = [], sender = Ai, imageUrl = None\<rparr>,
          \<lparr>text = ''Sorry, I encountered an error. Please try again.'', sender = Ai, imageUrl = None\<rparr>]
   \<and> replay (handleSendMessage failing_env (typed ''What RPM?'')) (typed ''What RPM?'')
       = Inr \<lparr>messages = messages initial_state @
                 [\<lparr>text = ''What RPM?'', sender = User, imageUrl = None\<rparr>,
                  \<lparr>text = ''Run it '', sender = Ai, imageUrl = None\<rparr>,
                  \<lparr>text = ''Sorry, I encountered an error. Please try again.'', sender = Ai, imageUrl = None\<rparr>],
              input = [], isLoading = False\<rparr>
   \<and> sendMessageStream textless_env ''What RPM?'' = Fulfilled (Chunk (Some ''Run it '') (Chunk None Done))
   \<and> replay (handleSendMessage textless_env (typed ''What RPM?'')) (typed ''What RPM?'')
       = Inr \<lparr>messages = messages initial_state @
                 [\<lparr>text = ''What RPM?'', sender = User, imageUrl = None\<rparr>,
                  \<lparr>text = ''Run it undefined'', sender = Ai, imageUrl = None\<rparr>],
              input = [], isLoading = False\<rparr>"
  by code_simp


section \<open>The image command\<close>

lemma of_char_lower_char:
  "(of_char (lower_char c) :: nat) =
     (let n = of_char c
      in if (65 \<le> n \<and> n \<le> 90) \<or> (192 \<le> n \<and> n \<le> 222 \<and> n \<noteq> 215) then n + 32 else n)"
  by (auto simp: lower_char_def Let_def)

lemma whitespace_lower_char:
  assumes "is_whitespace c"
  shows "(of_char (lower_char c) :: nat) \<in> {9, 10, 11, 12, 13, 32, 160}"
  using assms by (auto simp: of_char_lower_char is_whitespace_def Let_def)

lemma all_dropWhile: "(\<forall>c \<in> set (dropWhile P xs). P c) \<longleftrightarrow> (\<forall>c \<in> set xs. P c)"
proof
  assume all: "\<forall>c \<in> set (dropWhile P xs). P c"
  have "dropWhile P xs = []"
  proof (rule ccontr)
    assume ne: "dropWhile P xs \<noteq> []"
    then have "\<not> P (hd (dropWhile P xs))" by (rule hd_dropWhile)
    moreover from ne have "hd (dropWhile P xs) \<in> set (dropWhile P xs)" by simp
    ultimately show False using all by blast
  qed
  then show "\<forall>c \<in> set xs. P c" by simp
next
  assume "\<forall>c \<in> set xs. P c"
  then show "\<forall>c \<in> set (dropWhile P xs). P c" by (auto dest: set_dropWhileD)
qed

lemma trim_eq_Nil: "trim x = [] \<longleftrightarrow> (\<forall>c \<in> set x. is_whitespace c)"
  by (simp add: trim_def all_dropWhile)

lemma startsWith_Cons: "startsWith s (p # ps) \<longleftrightarrow> (\<exists>t. s = p # t \<and> startsWith t ps)"
  by (cases s) (auto simp: startsWith_def)

lemma startsWith_lowerD:
  assumes "startsWith (toLowerCase x) p"
  shows "x = take (length p) x @ drop (length p) x \<and> toLowerCase (take (length p) x) = p"
  using assms by (simp add: startsWith_def toLowerCase_def take_map)

lemma startsWith_lowerI:
  assumes "toLowerCase u = p"
  shows "startsWith (toLowerCase (u @ r)) p \<and> drop (length p) (u @ r) = r"
proof -
  have "length u = length p" using assms by (auto simp: toLowerCase_def)
  then show ?thesis using assms by (simp add: startsWith_def toLowerCase_def)
qed

lemma commands_exclusive: "\<not> (startsWith s imageCommand \<and> startsWith s imageCommandAlt)"
  by (auto simp: imageCommand_def imageCommandAlt_def startsWith_Cons)

lemma whitespace_blocks_match:
  assumes "is_whitespace c" shows "classify (c # x) = None"
proof -
  have "lower_char c \<noteq> CHR ''g''"
    using whitespace_lower_char [OF assms] by auto
  then show ?thesis
    by (auto simp: classify_def Let_def toLowerCase_def imageCommand_def imageCommandAlt_def startsWith_Cons)
qed

lemma classify_Some_iff:
  "classify x = Some r \<longleftrightarrow>
     (\<exists>u. x = u @ r \<and> (toLowerCase u = imageCommand \<or> toLowerCase u = imageCommandAlt))"
proof
  assume c: "classify x = Some r"
  show "\<exists>u. x = u @ r \<and> (toLowerCase u = imageCommand \<or> toLowerCase u = imageCommandAlt)"
  proof (cases "startsWith (toLowerCase x) imageCommand")
    case True
    with c have "r = drop (length imageCommand) x"
      by (simp add: classify_def substring_def)
    with startsWith_lowerD [OF True] show ?thesis by metis
  next
    case False
    with c have alt: "startsWith (toLowerCase x) imageCommandAlt"
      by (simp add: classify_def split: if_splits)
    with c False have "r = drop (length imageCommandAlt) x"
      by (simp add: classify_def substring_def)
    with startsWith_lowerD [OF alt] show ?thesis by metis
  qed
next
  assume "\<exists>u. x = u @ r \<and> (toLowerCase u = imageCommand \<or> toLowerCase u = imageCommandAlt)"
  then obtain u where x: "x = u @ r"
    and u: "toLowerCase u = imageCommand \<or> toLowerCase u = imageCommandAlt" by blast
  from u show "classify x = Some r"
  proof
    assume "toLowerCase u = imageCommand"
    from startsWith_lowerI [OF this, of r] show ?thesis
      by (simp add: classify_def substring_def x)
  next
    assume "toLowerCase u = imageCommandAlt"
    from startsWith_lowerI [OF this, of r] commands_exclusive [of "toLowerCase (u @ r)"]
    show ?thesis
      by (auto simp: classify_def substring_def x)
  qed
qed

lemma classify_Some_trim: 
  assumes "classify x = Some r" shows "trim x \<noteq> []"
proof -
  from assms obtain u where x: "x = u @ r"
    and u: "toLowerCase u = imageCommand \<or> toLowerCase u = imageCommandAlt"
    by (auto simp: classify_Some_iff)
  from u obtain c t where ct: "u = c # t"
    by (cases u) (auto simp: toLowerCase_def imageCommand_def imageCommandAlt_def)
  have "\<not> is_whitespace c"
    using whitespace_blocks_match [of c "t @ r"] assms by (auto simp: x ct)
  then show ?thesis by (auto simp: trim_eq_Nil x ct)
qed

text \<open>
  C2: an input takes an arm of the image-command test exactly when its lower-cased form
  starts with \<open>generate image of \<close> or \<open>generate an image of \<close>. Equivalently the input
  splits into a head that lower-cases to one of the two prefixes and a remainder, and
  the extracted prompt is that remainder of the original input, unchanged. The test
  depends on the input only through its lower-cased form, and an input that begins with
  a white-space character takes neither arm.
\<close>

theorem image_command_classification:
  "(classify x \<noteq> None \<longleftrightarrow>
      startsWith (toLowerCase x) imageCommand \<or> startsWith (toLowerCase x) imageCommandAlt)
   \<and> (classify x = Some r \<longleftrightarrow>
        (\<exists>u. x = u @ r \<and> (toLowerCase u = ''generate image of '' \<or> toLowerCase u = ''generate an image of '')))
   \<and> (classify x = Some r \<longrightarrow> extract_prompt x = r)
   \<and> (toLowerCase x = toLowerCase y \<longrightarrow> (classify x = None \<longleftrightarrow> classify y = None))
   \<and> (is_whitespace c \<longrightarrow> classify (c # x) = None)"
proof -
  have "classify x \<noteq> None \<longleftrightarrow>
      startsWith (toLowerCase x) imageCommand \<or> startsWith (toLowerCase x) imageCommandAlt"
    by (auto simp: classify_def Let_def)
  moreover have "classify x = Some r \<longleftrightarrow>
        (\<exists>u. x = u @ r \<and> (toLowerCase u = ''generate image of '' \<or> toLowerCase u = ''generate an image of ''))"
    using classify_Some_iff [of x r] by (simp add: imageCommand_def imageCommandAlt_def)
  moreover have "classify x = Some r \<longrightarrow> extract_prompt x = r"
    by (simp add: extract_prompt_def)
  moreover have "toLowerCase x = toLowerCase y \<longrightarrow> (classify x = None \<longleftrightarrow> classify y = None)"
    by (simp add: classify_def Let_def)
  moreover have "is_whitespace c \<longrightarrow> classify (c # x) = None"
    by (simp add: whitespace_blocks_match)
  ultimately show ?thesis by blast
qed

theorem image_command_classification_witness:
  "classify ''Generate Image OF a CNC spindle'' \<noteq> None
   \<and> classify ''Generate Image OF a CNC spindle'' = Some ''a CNC spindle''
   \<and> extract_prompt ''Generate Image OF a CNC spindle'' = ''a CNC spindle''
   \<and> classify ''GENERATE an image of a CNC spindle'' \<noteq> None
   \<and> classify (CHR 0x20 # ''generate image of a CNC spindle'') = None"
proof -
  have l1: "toLowerCase ''Generate Image OF '' = ''generate image of ''" by code_simp
  have l2: "toLowerCase ''GENERATE an image of a CNC spindle'' = toLowerCase ''generate an image of a CNC spindle''"
    by code_simp
  have c2: "classify ''generate an image of a CNC spindle'' \<noteq> None" by code_simp
  have ws: "is_whitespace (CHR 0x20)" by code_simp
  have split: "''Generate Image OF a CNC spindle'' = ''Generate Image OF '' @ ''a CNC spindle''" by simp
  note A = image_command_classification
    [of "''Generate Image OF a CNC spindle''" "''a CNC spindle''" "''Generate Image OF a CNC spindle''" "CHR 0x20"]
  note B = image_command_classification
    [of "''GENERATE an image of a CNC spindle''" "[]" "''generate an image of a CNC spindle''" "CHR 0x20"]
  note C = image_command_classification
    [of "''generate image of a CNC spindle''" "[]" "[]" "CHR 0x20"]
  have s1: "classify ''Generate Image OF a CNC spindle'' = Some ''a CNC spindle''"
    using A l1 split by blast
  then have "classify ''Generate Image OF a CNC spindle'' \<noteq> None" by simp
  moreover have "extract_prompt ''Generate Image OF a CNC spindle'' = ''a CNC spindle''"
    using A s1 by blast
  moreover have "classify ''GENERATE an image of a CNC spindle'' \<noteq> None"
    using B l2 c2 by blast
  moreover have "classify (CHR 0x20 # ''generate image of a CNC spindle'') = None"
    using C ws by blast
  ultimately show ?thesis using s1 by blast
qed


section \<open>The image path\<close>

lemma calls_catch_block: "calls (catch_block thrown) = []"
  by (cases thrown) (simp_all add: catch_block_def)

lemma image_path_calls: "calls (fst (image_path b p)) = [GenerateImages (image_request_for p)]"
  by (simp add: image_path_def Let_def split: settled.splits list.splits)

lemma chat_path_calls:
  "calls (fst (chat_path b x)) = (if chat_current b then [SendMessageStream x] else [])"
  by (simp add: chat_path_def split_def Let_def consume_quiet split: settled.splits)

lemma calls_handle_accepted:
  assumes "trim (input s) \<noteq> []" and "\<not> isLoading s"
  shows "calls (handleSendMessage b s) = calls (fst (try_block b (input s)))"
  using assms by (simp add: handle_accepted calls_append calls_catch_block)

text \<open>
  C3 (as amended): for an accepted submission whose input takes an arm of the
  image-command test with a non-empty extracted prompt \<open>X\<close>, the run issues exactly one
  backend request, the image request whose prompt is the wrapper text around \<open>X\<close>, for
  one image of type \<open>image/png\<close>.
\<close>

theorem image_request_issued:
  assumes "\<not> isLoading s" and "classify (input s) = Some X" and "X \<noteq> []"
  shows "calls (handleSendMessage b s)
         = [GenerateImages
              \<lparr>model = ''imagen-3.0-generate-002'',
               prompt = ''A high-quality, detailed image of '' @ X @ '' in an industrial setting.'',
               config = \<lparr>numberOfImages = 1, outputMimeType = ''image/png''\<rparr>\<rparr>]"
proof -
  have "trim (input s) \<noteq> []" using assms(2) by (rule classify_Some_trim)
  moreover have "extract_prompt (input s) = X" using assms(2) by (simp add: extract_prompt_def)
  ultimately show ?thesis
    using assms(1,3)
    by (simp add: calls_handle_accepted try_block_image image_path_calls image_request_for_def
        wrap_prompt_def)
qed

theorem image_request_issued_witness:
  "calls (handleSendMessage sample_env (typed ''Generate image of a CNC spindle housing''))
   = [GenerateImages
        \<lparr>model = ''imagen-3.0-generate-002'',
         prompt = ''A high-quality, detailed image of a CNC spindle housing in an industrial setting.'',
         config = \<lparr>numberOfImages = 1, outputMimeType = ''image/png''\<rparr>\<rparr>]"
proof -
  have idle: "\<not> isLoading (typed ''Generate image of a CNC spindle housing'')"
    by (simp add: typed_def initial_state_def)
  have cls: "classify (input (typed ''Generate image of a CNC spindle housing'')) = Some ''a CNC spindle housing''"
    by code_simp
  have ne: "''a CNC spindle housing'' \<noteq> []" by simp
  show ?thesis
    using image_request_issued [OF idle cls ne, of sample_env] by simp
qed

text \<open>
  With an empty extracted prompt the statement fails: the bare prefix takes the first arm
  of the test, yet the only request of the run is the chat request.
\<close>

theorem image_request_issued_counterexample:
  "trim ''generate image of '' \<noteq> []
   \<and> classify ''generate image of '' = Some []
   \<and> extract_prompt ''generate image of '' = []
   \<and> calls (handleSendMessage sample_env (typed ''generate image of ''))
       = [SendMessageStream ''generate image of '']"
  by code_simp

text \<open>
  C4 (as amended): for an accepted submission whose input matches an image-command prefix
  with a non-empty extracted prompt \<open>X\<close> (the input ends with \<open>X\<close>), exactly one request
  is issued, the image request whose prompt is the wrapper text around \<open>X\<close>; and when the
  request fulfils with at least one image, exactly one assistant message is appended
  after the user message, with the confirmation text around \<open>X\<close> (\<open>CHR 0x22\<close> is the
  double quote) and the data URI of the first image's bytes.
\<close>

theorem image_turn:
  assumes "\<not> isLoading s" and "classify (input s) = Some X" and "X \<noteq> []"
  shows "(\<exists>u. input s = u @ X)
     \<and> calls (handleSendMessage b s) = [GenerateImages (image_request_for X)]
     \<and> prompt (image_request_for X)
         = ''A high-quality, detailed image of '' @ X @ '' in an industrial setting.''
     \<and> (generateImages b (image_request_for X) = Fulfilled (base64ImageBytes # others) \<longrightarrow>
          appended (handleSendMessage b s)
            = [\<lparr>text = input s, sender = User, imageUrl = None\<rparr>,
               \<lparr>text = ''Here is the image of '' @ [CHR 0x22] @ X @ [CHR 0x22] @ '' you requested.'',
                sender = Ai,
                imageUrl = Some (''data:image/png;base64,'' @ base64ImageBytes)\<rparr>]
          \<and> replay (handleSendMessage b s) s
            = Inr \<lparr>messages = messages s @
                      [\<lparr>text = input s, sender = User, imageUrl = None\<rparr>,
                       \<lparr>text = ''Here is the image of '' @ [CHR 0x22] @ X @ [CHR 0x22] @ '' you requested.'',
                        sender = Ai,
                        imageUrl = Some (''data:image/png;base64,'' @ base64ImageBytes)\<rparr>],
                   input = [], isLoading = False\<rparr>)"
proof -
  obtain ms i l where s: "s = \<lparr>messages = ms, input = i, isLoading = l\<rparr>"
    by (cases s) simp
  have cls: "classify i = Some X" using assms(2) by (simp add: s)
  have tr: "trim (input s) \<noteq> []" using assms(2) by (rule classify_Some_trim)
  have ep: "extract_prompt i = X" using cls by (simp add: extract_prompt_def)
  have tb: "try_block b i = image_path b X"
    using try_block_image [of i b] ep assms(3) by simp
  have "\<exists>u. input s = u @ X" using assms(2) by (auto simp: classify_Some_iff)
  moreover have "calls (handleSendMessage b s) = [GenerateImages (image_request_for X)]"
    using tr assms(1) by (simp add: calls_handle_accepted s tb image_path_calls)
  moreover have "prompt (image_request_for X)
         = ''A high-quality, detailed image of '' @ X @ '' in an industrial setting.''"
    by (simp add: image_request_for_def wrap_prompt_def)
  moreover have "generateImages b (image_request_for X) = Fulfilled (base64ImageBytes # others) \<longrightarrow>
          appended (handleSendMessage b s)
            = [\<lparr>text = input s, sender = User, imageUrl = None\<rparr>,
               \<lparr>text = ''Here is the image of '' @ [CHR 0x22] @ X @ [CHR 0x22] @ '' you requested.'',
                sender = Ai,
                imageUrl = Some (''data:image/png;base64,'' @ base64ImageBytes)\<rparr>]
          \<and> replay (handleSendMessage b s) s
            = Inr \<lparr>messages = messages s @
                      [\<lparr>text = input s, sender = User, imageUrl = None\<rparr>,
                       \<lparr>text = ''Here is the image of '' @ [CHR 0x22] @ X @ [CHR 0x22] @ '' you requested.'',
                        sender = Ai,
                        imageUrl = Some (''data:image/png;base64,'' @ base64ImageBytes)\<rparr>],
                   input = [], isLoading = False\<rparr>"
  proof
    assume ok: "generateImages b (image_request_for X) = Fulfilled (base64ImageBytes # others)"
    have ip: "image_path b X =
        ([Call (GenerateImages (image_request_for X)),
          Append \<lparr>text = confirmation_text X, sender = Ai, imageUrl = Some (data_uri base64ImageBytes)\<rparr>],
         None)"
      using ok by (simp add: image_path_def Let_def)
    have evs: "handleSendMessage b s =
        [Append \<lparr>text = i, sender = User, imageUrl = None\<rparr>, SetInput [], SetIsLoading True,
         Call (GenerateImages (image_request_for X)),
         Append \<lparr>text = confirmation_text X, sender = Ai, imageUrl = Some (data_uri base64ImageBytes)\<rparr>,
         SetIsLoading False]"
      using tr assms(1) by (simp add: handle_accepted s tb ip catch_block_def)
    show "appended (handleSendMessage b s)
            = [\<lparr>text = input s, sender = User, imageUrl = None\<rparr>,
               \<lparr>text = ''Here is the image of '' @ [CHR 0x22] @ X @ [CHR 0x22] @ '' you requested.'',
                sender = Ai,
                imageUrl = Some (''data:image/png;base64,'' @ base64ImageBytes)\<rparr>]
          \<and> replay (handleSendMessage b s) s
            = Inr \<lparr>messages = messages s @
                      [\<lparr>text = input s, sender = User, imageUrl = None\<rparr>,
                       \<lparr>text = ''Here is the image of '' @ [CHR 0x22] @ X @ [CHR 0x22] @ '' you requested.'',
                        sender = Ai,
                        imageUrl = Some (''data:image/png;base64,'' @ base64ImageBytes)\<rparr>],
                   input = [], isLoading = False\<rparr>"
      unfolding evs by (simp add: s confirmation_text_def data_uri_def)
  qed
  ultimately show ?thesis by blast
qed


theorem image_turn_witness:
  "(\<exists>u. ''Generate image of a CNC spindle housing'' = u @ ''a CNC spindle housing'')
   \<and> calls (handleSendMessage sample_env (typed ''Generate image of a CNC spindle housing''))
       = [GenerateImages (image_request_for ''a CNC spindle housing'')]
   \<and> appended (handleSendMessage sample_env (typed ''Generate image of a CNC spindle housing''))
       = [\<lparr>text = ''Generate image of a CNC spindle housing'', sender = User, imageUrl = None\<rparr>,
          \<lparr>text = ''Here is the image of '' @ [CHR 0x22] @ ''a CNC spindle housing'' @ [CHR 0x22] @ '' you requested.'',
           sender = Ai, imageUrl = Some ''data:image/png;base64,iVBORw0KGgo=''\<rparr>]
   \<and> replay (handleSendMessage sample_env (typed ''Generate image of a CNC spindle housing''))
         (typed ''Generate image of a CNC spindle housing'')
       = Inr \<lparr>messages = messages initial_state @
                 [\<lparr>text = ''Generate image of a CNC spindle housing'', sender = User, imageUrl = None\<rparr>,
                  \<lparr>text = ''Here is the image of '' @ [CHR 0x22] @ ''a CNC spindle housing'' @ [CHR 0x22] @ '' you requested.'',
                   sender = Ai, imageUrl = Some ''data:image/png;base64,iVBORw0KGgo=''\<rparr>],
              input = [], isLoading = False\<rparr>"
proof -
  have idle: "\<not> isLoading (typed ''Generate image of a CNC spindle housing'')"
    by (simp add: typed_def initial_state_def)
  have cls: "classify (input (typed ''Generate image of a CNC spindle housing'')) = Some ''a CNC spindle housing''"
    by code_simp
  have ne: "''a CNC spindle housing'' \<noteq> []" by simp
  have ok: "generateImages sample_env (image_request_for ''a CNC spindle housing'')
            = Fulfilled (''iVBORw0KGgo='' # [])"
    by (simp add: sample_env_def)
  show ?thesis
    using image_turn [OF idle cls ne, of sample_env "''iVBORw0KGgo=''" "[]"] ok
    by (simp add: typed_def initial_state_def)
qed

text \<open>
  The statement as first given fails twice over: the bare prefix matches with an empty
  prompt and no image request is issued, and where an image request is issued its prompt
  is the wrapper text, not the extracted prompt itself.
\<close>

theorem image_turn_counterexample:
  "classify ''Generate an image of '' = Some []
   \<and> calls (handleSendMessage sample_env (typed ''Generate an image of ''))
       = [SendMessageStream ''Generate an image of '']
   \<and> classify ''generate image of a lathe'' = Some ''a lathe''
   \<and> calls (handleSendMessage sample_env (typed ''generate image of a lathe''))
       = [GenerateImages
            \<lparr>model = ''imagen-3.0-generate-002'',
             prompt = ''A high-quality, detailed image of a lathe in an industrial setting.'',
             config = \<lparr>numberOfImages = 1, outputMimeType = ''image/png''\<rparr>\<rparr>]
   \<and> ''A high-quality, detailed image of a lathe in an industrial setting.'' \<noteq> ''a lathe''"
  by code_simp

text \<open>
  C8: when the lower-cased input is exactly one of the two prefixes, the extracted
  prompt is empty, the \<open>try\<close> block takes the conversational path, and no image request
  is issued: the only request an accepted submission makes is the chat request carrying
  the input (none at all when the chat session is missing).
\<close>

theorem bare_prefix_is_conversational:
  assumes "toLowerCase (input s) = ''generate image of ''
           \<or> toLowerCase (input s) = ''generate an image of ''"
  shows "classify (input s) = Some []
     \<and> extract_prompt (input s) = []
     \<and> try_block b (input s) = chat_path b (input s)
     \<and> calls (handleSendMessage b s)
         = (if \<not> isLoading s \<and> chat_current b then [SendMessageStream (input s)] else [])
     \<and> (\<forall>r. GenerateImages r \<notin> set (calls (handleSendMessage b s)))"
proof -
  have cls: "classify (input s) = Some []"
    using assms classify_Some_iff [of "input s" "[]"]
    by (simp add: imageCommand_def imageCommandAlt_def)
  then have ep: "extract_prompt (input s) = []" by (simp add: extract_prompt_def)
  then have tb: "try_block b (input s) = chat_path b (input s)" by (rule try_block_chat)
  have tr: "trim (input s) \<noteq> []" using cls by (rule classify_Some_trim)
  have cs: "calls (handleSendMessage b s)
         = (if \<not> isLoading s \<and> chat_current b then [SendMessageStream (input s)] else [])"
  proof (cases "isLoading s")
    case True
    then show ?thesis by (simp add: handleSendMessage_def)
  next
    case False
    with tr show ?thesis by (simp add: calls_handle_accepted tb chat_path_calls)
  qed
  from cs have "\<forall>r. GenerateImages r \<notin> set (calls (handleSendMessage b s))" by simp
  with cls ep tb cs show ?thesis by blast
qed

theorem bare_prefix_witness:
  "classify ''Generate Image Of '' = Some []
   \<and> extract_prompt ''Generate Image Of '' = []
   \<and> calls (handleSendMessage sample_env (typed ''Generate Image Of ''))
       = [SendMessageStream ''Generate Image Of '']"
proof -
  have low: "toLowerCase (input (typed ''Generate Image Of '')) = ''generate image of ''
             \<or> toLowerCase (input (typed ''Generate Image Of '')) = ''generate an image of ''"
    by code_simp
  show ?thesis
    using bare_prefix_is_conversational [OF low, of sample_env]
    by (simp add: typed_def initial_state_def sample_env_def)
qed


section \<open>Failures\<close>

lemma image_path_fail:
  assumes "snd (image_path b p) = Some err"
  shows "fst (image_path b p) = [Call (GenerateImages (image_request_for p))]"
  using assms by (auto simp: image_path_def Let_def split: settled.splits list.splits)

lemma try_block_throws_iff:
  "snd (try_block b x) \<noteq> None \<longleftrightarrow>
     (if extract_prompt x \<noteq> []
      then generateImages b (image_request_for (extract_prompt x)) = Rejected
           \<or> generateImages b (image_request_for (extract_prompt x)) = Fulfilled []
      else \<not> chat_current b \<or> sendMessageStream b x = Rejected
           \<or> (\<exists>st. sendMessageStream b x = Fulfilled st \<and> throws st))"
  by (auto simp: try_block_def image_path_def chat_path_def Let_def split_def consume_thrown
      split: settled.splits list.splits)

text \<open>
  C6: when the \<open>try\<close> block of an accepted submission throws, on either path, the run
  logs the error once and ends in a state with the loading flag false whose transcript
  is the old one, then the user message, then the assistant message holding whatever had
  been streamed before the failure (present only when the stream had started), then
  exactly one assistant message with the fixed apology, last. Nothing is thrown past the
  handler: its run always ends with the \<open>finally\<close> clause.
\<close>

theorem failure_handling:
  assumes "trim (input s) \<noteq> []" and "\<not> isLoading s"
    and "snd (try_block b (input s)) = Some err"
  shows "logged (handleSendMessage b s) = [err]
     \<and> last (handleSendMessage b s) = SetIsLoading False
     \<and> replay (handleSendMessage b s) s
         = Inr \<lparr>messages = messages s
                   @ [\<lparr>text = input s, sender = User, imageUrl = None\<rparr>]
                   @ (if extract_prompt (input s) = [] \<and> chat_current b
                      then case sendMessageStream b (input s) of
                             Rejected \<Rightarrow> []
                           | Fulfilled st \<Rightarrow>
                               [\<lparr>text = concat (chunk_texts st), sender = Ai, imageUrl = None\<rparr>]
                      else [])
                   @ [\<lparr>text = ''Sorry, I encountered an error. Please try again.'',
                       sender = Ai, imageUrl = None\<rparr>],
                input = [], isLoading = False\<rparr>"
proof -
  obtain ms i l where s: "s = \<lparr>messages = ms, input = i, isLoading = l\<rparr>"
    by (cases s) simp
  let ?u = "\<lparr>text = i, sender = User, imageUrl = None\<rparr>"
  let ?p = "\<lparr>text = [], sender = Ai, imageUrl = None\<rparr>"
  have thrown: "snd (try_block b i) = Some err" using assms(3) by (simp add: s)
  have evs: "handleSendMessage b s =
      [Append ?u, SetInput [], SetIsLoading True] @ fst (try_block b i)
      @ [ConsoleError err, Append errorMessage, SetIsLoading False]"
    using assms(1,2) thrown by (simp add: handle_accepted catch_block_def s)
  show ?thesis
  proof (cases "extract_prompt i = []")
    case False
    then have tb: "try_block b i = image_path b (extract_prompt i)" by (rule try_block_image)
    have "fst (try_block b i) = [Call (GenerateImages (image_request_for (extract_prompt i)))]"
      using thrown unfolding tb by (rule image_path_fail)
    then show ?thesis
      using False unfolding evs by (simp add: s errorMessage_def)
  next
    case True
    then have tb: "try_block b i = chat_path b i" by (rule try_block_chat)
    show ?thesis
    proof (cases "chat_current b")
      case False
      then have "fst (try_block b i) = []" by (simp add: tb chat_path_def)
      then show ?thesis
        using True False unfolding evs by (simp add: s errorMessage_def)
    next
      case cur: True
      show ?thesis
      proof (cases "sendMessageStream b i")
        case Rejected
        then have "fst (try_block b i) = [Call (SendMessageStream i)]"
          using cur by (simp add: tb chat_path_def)
        then show ?thesis
          using True cur Rejected unfolding evs by (simp add: s errorMessage_def)
      next
        case (Fulfilled st)
        have f: "fst (try_block b i) = Call (SendMessageStream i) # Append ?p # fst (consume st [])"
          using chat_path_Fulfilled(1) [OF cur Fulfilled] by (simp add: tb)
        have "replay (fst (consume st [])) \<lparr>messages = (ms @ [?u]) @ [?p], input = [], isLoading = True\<rparr>
              = Inr \<lparr>messages = (ms @ [?u]) @ [?p\<lparr>text := [] @ concat (chunk_texts st)\<rparr>],
                     input = [], isLoading = True\<rparr>"
          by (rule replay_consume) simp
        then have "replay (handleSendMessage b s) s
              = Inr \<lparr>messages = ms @ [?u, ?p\<lparr>text := concat (chunk_texts st)\<rparr>, errorMessage],
                     input = [], isLoading = False\<rparr>"
          unfolding evs f by (simp add: replay_append s)
        moreover have "logged (handleSendMessage b s) = [err]"
          unfolding evs f by (simp add: logged_append consume_quiet)
        moreover have "last (handleSendMessage b s) = SetIsLoading False"
          unfolding evs by simp
        ultimately show ?thesis
          using True cur Fulfilled by (simp add: s errorMessage_def)
      qed
    qed
  qed
qed

theorem failure_handling_witness:
  "logged (handleSendMessage failing_env (typed ''Which bearing?'')) = [BackendFailure]
   \<and> replay (handleSendMessage failing_env (typed ''Which bearing?'')) (typed ''Which bearing?'')
       = Inr \<lparr>messages = messages initial_state @
                 [\<lparr>text = ''Which bearing?'', sender = User, imageUrl = None\<rparr>,
                  \<lparr>text = ''Run it '', sender = Ai, imageUrl = None\<rparr>,
                  \<lparr>text = ''Sorry, I encountered an error. Please try again.'',
                   sender = Ai, imageUrl = None\<rparr>],
              input = [], isLoading = False\<rparr>
   \<and> logged (handleSendMessage failing_env (typed ''generate image of a lathe'')) = [BackendFailure]
   \<and> replay (handleSendMessage failing_env (typed ''generate image of a lathe''))
         (typed ''generate image of a lathe'')
       = Inr \<lparr>messages = messages initial_state @
                 [\<lparr>text = ''generate image of a lathe'', sender = User, imageUrl = None\<rparr>,
                  \<lparr>text = ''Sorry, I encountered an error. Please try again.'',
                   sender = Ai, imageUrl = None\<rparr>],
              input = [], isLoading = False\<rparr>"
proof -
  have a1: "trim (input (typed ''Which bearing?'')) \<noteq> []" by code_simp
  have a2: "\<not> isLoading (typed ''Which bearing?'')" by (simp add: typed_def initial_state_def)
  have a3: "snd (try_block failing_env (input (typed ''Which bearing?''))) = Some BackendFailure"
    by code_simp
  have a4: "extract_prompt (input (typed ''Which bearing?'')) = []" by code_simp
  have b1: "trim (input (typed ''generate image of a lathe'')) \<noteq> []" by code_simp
  have b2: "\<not> isLoading (typed ''generate image of a lathe'')" by (simp add: typed_def initial_state_def)
  have b3: "snd (try_block failing_env (input (typed ''generate image of a lathe''))) = Some BackendFailure"
    by code_simp
  have b4: "extract_prompt (input (typed ''generate image of a lathe'')) = ''a lathe''" by code_simp
  show ?thesis
    using failure_handling [OF a1 a2 a3] failure_handling [OF b1 b2 b3] a4 b4
    by (simp add: typed_def initial_state_def failing_env_def)
qed


section \<open>The loading flag\<close>

lemma consume_no_flag: "e \<in> set (fst (consume st acc)) \<Longrightarrow> \<not> sets_loading e \<and> e \<noteq> SetIsLoading v"
  by (induction st arbitrary: acc) (auto simp: split_def Let_def)

lemma try_block_no_flag:
  assumes "e \<in> set (fst (try_block b x) @ catch_block (snd (try_block b x)))"
  shows "\<not> sets_loading e"
proof -
  from assms consider "e \<in> set (fst (image_path b (extract_prompt x)))"
    | "e \<in> set (fst (chat_path b x))" | "e \<in> set (catch_block (snd (try_block b x)))"
    by (auto simp: try_block_def Let_def split: if_splits)
  then show ?thesis
  proof cases
    case 1
    then show ?thesis
      by (auto simp: image_path_def Let_def split: settled.splits list.splits)
  next
    case 2
    then show ?thesis
      by (auto simp: chat_path_def split_def Let_def dest: consume_no_flag
          split: settled.splits if_splits)
  next
    case 3
    then show ?thesis
      by (auto simp: catch_block_def split: option.splits)
  qed
qed

lemma replay_quiet:
  assumes "ms \<noteq> []" and "\<forall>e \<in> set evs. \<not> sets_loading e"
  shows "\<exists>ms' i'. ms' \<noteq> [] \<and>
           replay evs \<lparr>messages = ms, input = i, isLoading = l\<rparr>
           = Inr \<lparr>messages = ms', input = i', isLoading = l\<rparr>"
  using assms
proof (induction evs arbitrary: ms i)
  case Nil
  then show ?case by simp
next
  case (Cons e evs)
  have rest: "\<forall>e \<in> set evs. \<not> sets_loading e" using Cons.prems(2) by simp
  have "\<exists>ms1 i1. ms1 \<noteq> [] \<and>
          apply_event e \<lparr>messages = ms, input = i, isLoading = l\<rparr>
          = Inr \<lparr>messages = ms1, input = i1, isLoading = l\<rparr>"
    using Cons.prems by (cases e) (simp_all add: set_last_text_def)
  then obtain ms1 i1 where ne: "ms1 \<noteq> []"
    and step: "apply_event e \<lparr>messages = ms, input = i, isLoading = l\<rparr>
               = Inr \<lparr>messages = ms1, input = i1, isLoading = l\<rparr>" by blast
  from Cons.IH [OF ne rest, of i1] show ?case by (simp add: step)
qed

lemma replay_pending:
  assumes "trim i \<noteq> []" and "j \<le> length (fst (try_block b i) @ catch_block (snd (try_block b i)))"
  shows "\<exists>ms' i'. replay (take (3 + j) (handleSendMessage b \<lparr>messages = ms, input = i, isLoading = False\<rparr>))
              \<lparr>messages = cms, input = ci, isLoading = cl\<rparr>
           = Inr \<lparr>messages = ms', input = i', isLoading = True\<rparr>"
proof -
  define mid where "mid = fst (try_block b i) @ catch_block (snd (try_block b i))"
  let ?u = "\<lparr>text = i, sender = User, imageUrl = None\<rparr>"
  have evs: "handleSendMessage b \<lparr>messages = ms, input = i, isLoading = False\<rparr>
             = Append ?u # SetInput [] # SetIsLoading True # mid @ [SetIsLoading False]"
    using assms(1) by (simp add: handle_accepted mid_def)
  have j: "j \<le> length mid" using assms(2) by (simp add: mid_def)
  have tk: "take (3 + j) (handleSendMessage b \<lparr>messages = ms, input = i, isLoading = False\<rparr>)
            = Append ?u # SetInput [] # SetIsLoading True # take j mid"
    unfolding evs using j by (simp add: numeral_3_eq_3)
  have quiet: "\<forall>e \<in> set (take j mid). \<not> sets_loading e"
    using try_block_no_flag [of _ b i] unfolding mid_def by (blast dest: in_set_takeD)
  have ne: "cms @ [?u] \<noteq> []" by simp
  from replay_quiet [OF ne quiet, of "[]" True]
  obtain ms' i' where "replay (take j mid) \<lparr>messages = cms @ [?u], input = [], isLoading = True\<rparr>
           = Inr \<lparr>messages = ms', input = i', isLoading = True\<rparr>" by blast
  then have "replay (take (3 + j) (handleSendMessage b \<lparr>messages = ms, input = i, isLoading = False\<rparr>))
              \<lparr>messages = cms, input = ci, isLoading = cl\<rparr>
           = Inr \<lparr>messages = ms', input = i', isLoading = True\<rparr>"
    unfolding tk by simp
  then show ?thesis by blast
qed

lemma replay_settled:
  assumes "trim i \<noteq> []"
  shows "\<exists>ms' i'. replay (handleSendMessage b \<lparr>messages = ms, input = i, isLoading = False\<rparr>)
              \<lparr>messages = cms, input = ci, isLoading = cl\<rparr>
           = Inr \<lparr>messages = ms', input = i', isLoading = False\<rparr>"
proof -
  define mid where "mid = fst (try_block b i) @ catch_block (snd (try_block b i))"
  let ?u = "\<lparr>text = i, sender = User, imageUrl = None\<rparr>"
  have evs: "handleSendMessage b \<lparr>messages = ms, input = i, isLoading = False\<rparr>
             = [Append ?u, SetInput [], SetIsLoading True] @ mid @ [SetIsLoading False]"
    using assms(1) by (simp add: handle_accepted mid_def)
  have quiet: "\<forall>e \<in> set mid. \<not> sets_loading e"
    using try_block_no_flag [of _ b i] unfolding mid_def by blast
  have ne: "cms @ [?u] \<noteq> []" by simp
  from replay_quiet [OF ne quiet, of "[]" True]
  obtain ms' i' where "replay mid \<lparr>messages = cms @ [?u], input = [], isLoading = True\<rparr>
           = Inr \<lparr>messages = ms', input = i', isLoading = True\<rparr>" by blast
  then have "replay (handleSendMessage b \<lparr>messages = ms, input = i, isLoading = False\<rparr>)
              \<lparr>messages = cms, input = ci, isLoading = cl\<rparr>
           = Inr \<lparr>messages = ms', input = i', isLoading = False\<rparr>"
    unfolding evs by (simp add: replay_append)
  then show ?thesis by blast
qed

lemma filter_quiet: "\<forall>e \<in> set evs. \<not> sets_loading e \<Longrightarrow> filter sets_loading evs = []"
  by (induction evs) simp_all

text \<open>
  C7 (as amended): let the handler of a render \<open>s\<close> accept a submission, and let its run
  start in a state \<open>c\<close> in which no other submission is in flight (the loading flag is
  false), with no other run interleaved. The run sets the loading flag exactly twice, to
  true by the third call (the last of the synchronous block that opens the submission)
  and to false by the last one, on either path and whether the \<open>try\<close> block returns or
  throws. Counting the calls performed so far, the flag is true after \<open>k\<close> calls exactly
  when \<open>3 \<le> k\<close> and the run is not over; in particular it is true whenever the handler
  is suspended at an \<open>await\<close>, and false before the run and after it. While the run is
  pending, the handler of every render that shows the flag as it then is refuses a
  submission, with any draft and any backend: pending intervals cannot overlap as long
  as each submission goes through the handler of a render made after the one before it
  began. The run is a function of the backend and of what the render captured, so a
  second call through the handler of the same render is accepted like the first.
\<close>

theorem loading_flag_interval:
  assumes "trim (input s) \<noteq> []" and "\<not> isLoading s" and "\<not> isLoading c"
  shows "4 \<le> length (handleSendMessage b s)
     \<and> filter sets_loading (handleSendMessage b s) = [SetIsLoading True, SetIsLoading False]
     \<and> handleSendMessage b s ! 2 = SetIsLoading True
     \<and> last (handleSendMessage b s) = SetIsLoading False
     \<and> (\<forall>k \<le> length (handleSendMessage b s).
           \<exists>sk. replay (take k (handleSendMessage b s)) c = Inr sk
               \<and> (isLoading sk \<longleftrightarrow> 3 \<le> k \<and> k < length (handleSendMessage b s)))
     \<and> (\<forall>k < length (handleSendMessage b s).
           suspends (handleSendMessage b s ! k) \<longrightarrow>
           (\<exists>sk. replay (take (Suc k) (handleSendMessage b s)) c = Inr sk \<and> isLoading sk))
     \<and> (\<forall>k b' r.
           3 \<le> k \<and> k < length (handleSendMessage b s) \<longrightarrow>
           (\<exists>sk. replay (take k (handleSendMessage b s)) c = Inr sk
               \<and> (isLoading r = isLoading sk \<longrightarrow> handleSendMessage b' r = [])))"
proof -
  obtain ms i where s: "s = \<lparr>messages = ms, input = i, isLoading = False\<rparr>"
    using assms(2) by (cases s) simp
  obtain cms ci where c: "c = \<lparr>messages = cms, input = ci, isLoading = False\<rparr>"
    using assms(3) by (cases c) simp
  have tr: "trim i \<noteq> []" using assms(1) by (simp add: s)
  define mid where "mid = fst (try_block b i) @ catch_block (snd (try_block b i))"
  define evs where "evs = handleSendMessage b s"
  let ?u = "\<lparr>text = i, sender = User, imageUrl = None\<rparr>"
  have evs: "evs = Append ?u # SetInput [] # SetIsLoading True # mid @ [SetIsLoading False]"
    using tr by (simp add: evs_def handle_accepted mid_def s)
  have n: "length evs = 4 + length mid" by (simp add: evs)
  have quiet: "\<forall>e \<in> set mid. \<not> sets_loading e"
    using try_block_no_flag [of _ b i] unfolding mid_def by blast
  have flags: "filter sets_loading evs = [SetIsLoading True, SetIsLoading False]"
    by (simp add: evs filter_quiet [OF quiet])
  have third: "evs ! 2 = SetIsLoading True" by (simp add: evs numeral_2_eq_2)
  have final: "last evs = SetIsLoading False" by (simp add: evs)
  have states: "\<exists>sk. replay (take k evs) c = Inr sk \<and> (isLoading sk \<longleftrightarrow> 3 \<le> k \<and> k < length evs)"
    if kle: "k \<le> length evs" for k
  proof -
    consider "k = 0" | "k = 1" | "k = 2" | "3 \<le> k" "k < length evs" | "k = length evs"
      using kle by atomize_elim arith
    then show ?thesis
    proof cases
      case 1
      then show ?thesis by (simp add: c)
    next
      case 2
      then show ?thesis by (simp add: evs c)
    next
      case 3
      then show ?thesis by (simp add: evs c numeral_2_eq_2)
    next
      case 4
      from 4(1) obtain j where k: "k = 3 + j" using le_Suc_ex by blast
      have j: "j \<le> length mid" using 4(2) n k by simp
      from replay_pending [OF tr, of j b ms cms ci False] j
      show ?thesis using 4 by (auto simp: k evs_def s c mid_def)
    next
      case 5
      from replay_settled [OF tr, of b ms cms ci False]
      show ?thesis using 5 by (auto simp: evs_def s c)
    qed
  qed
  have susp: "\<exists>sk. replay (take (Suc k) evs) c = Inr sk \<and> isLoading sk"
    if klt: "k < length evs" and sus: "suspends (evs ! k)" for k
  proof -
    have lo: "3 \<le> Suc k"
    proof (rule ccontr)
      assume "\<not> 3 \<le> Suc k"
      then have "k = 0 \<or> k = 1" by linarith
      then show False using sus by (auto simp: evs)
    qed
    have "evs ! (length evs - 1) = SetIsLoading False"
      using final by (simp add: last_conv_nth evs)
    then have "k \<noteq> length evs - 1" using sus by auto
    then have hi: "Suc k < length evs" using klt by linarith
    from states [of "Suc k"] lo hi show ?thesis by auto
  qed
  have refuse: "\<exists>sk. replay (take k evs) c = Inr sk
      \<and> (isLoading r = isLoading sk \<longrightarrow> handleSendMessage b' r = [])"
    if pending: "3 \<le> k \<and> k < length evs" for k b' r
  proof -
    from states [of k] pending obtain sk where "replay (take k evs) c = Inr sk" and "isLoading sk"
      by auto
    then show ?thesis by (auto simp: handleSendMessage_def)
  qed
  from n flags third final states susp refuse show ?thesis
    unfolding evs_def by simp
qed

theorem loading_flag_interval_witness:
  "length (handleSendMessage sample_env (typed ''What RPM?'')) = 11
   \<and> filter sets_loading (handleSendMessage sample_env (typed ''What RPM?''))
       = [SetIsLoading True, SetIsLoading False]
   \<and> (\<exists>sk. replay (take 2 (handleSendMessage sample_env (typed ''What RPM?''))) initial_state = Inr sk
          \<and> \<not> isLoading sk)
   \<and> (\<exists>sk. replay (take 6 (handleSendMessage sample_env (typed ''What RPM?''))) initial_state = Inr sk
          \<and> isLoading sk
          \<and> handleSendMessage failing_env (sk\<lparr>input := ''And the torque?''\<rparr>) = [])
   \<and> (\<exists>sk. replay (take 11 (handleSendMessage sample_env (typed ''What RPM?''))) initial_state = Inr sk
          \<and> \<not> isLoading sk)"
proof -
  have h1: "trim (input (typed ''What RPM?'')) \<noteq> []" by code_simp
  have h2: "\<not> isLoading (typed ''What RPM?'')" by (simp add: typed_def initial_state_def)
  have h3: "\<not> isLoading initial_state" by (simp add: initial_state_def)
  have len: "length (handleSendMessage sample_env (typed ''What RPM?'')) = 11" by code_simp
  note T = loading_flag_interval [OF h1 h2 h3, of sample_env, unfolded len]
  from T have states: "\<forall>k \<le> 11. \<exists>sk.
      replay (take k (handleSendMessage sample_env (typed ''What RPM?''))) initial_state = Inr sk
      \<and> (isLoading sk \<longleftrightarrow> 3 \<le> k \<and> k < 11)" by blast
  from T have refuse: "\<forall>k b' r. 3 \<le> k \<and> k < 11 \<longrightarrow> (\<exists>sk.
      replay (take k (handleSendMessage sample_env (typed ''What RPM?''))) initial_state = Inr sk
      \<and> (isLoading r = isLoading sk \<longrightarrow> handleSendMessage b' r = []))" by blast
  from T have flags: "filter sets_loading (handleSendMessage sample_env (typed ''What RPM?''))
       = [SetIsLoading True, SetIsLoading False]" by blast
  from states [rule_format, of 2] have s2: "\<exists>sk.
      replay (take 2 (handleSendMessage sample_env (typed ''What RPM?''))) initial_state = Inr sk
      \<and> \<not> isLoading sk" by simp
  from states [rule_format, of 11] have s11: "\<exists>sk.
      replay (take 11 (handleSendMessage sample_env (typed ''What RPM?''))) initial_state = Inr sk
      \<and> \<not> isLoading sk" by simp
  from states [rule_format, of 6] obtain sk where
      sk: "replay (take 6 (handleSendMessage sample_env (typed ''What RPM?''))) initial_state = Inr sk"
      and busy: "isLoading sk" by auto
  from refuse [rule_format, of 6 "sk\<lparr>input := ''And the torque?''\<rparr>" failing_env] sk busy
  have "handleSendMessage failing_env (sk\<lparr>input := ''And the torque?''\<rparr>) = []" by simp
  with sk busy have s6: "\<exists>sk.
      replay (take 6 (handleSendMessage sample_env (typed ''What RPM?''))) initial_state = Inr sk
      \<and> isLoading sk \<and> handleSendMessage failing_env (sk\<lparr>input := ''And the torque?''\<rparr>) = []"
    by blast
  from len flags s2 s6 s11 show ?thesis by blast
qed

text \<open>
  Without the proviso on the render the statement fails. A second submit that reaches
  the handler of the same render, before the component has rendered again, reads the
  captured \<open>isLoading = false\<close> and is accepted: its run is the list of calls of the
  first. Let both runs make their first four calls (the opening block and the request),
  and let the first then finish. The flag is false while the second run is still
  suspended at its request: the two pending intervals overlap, and the flag is not true
  throughout the second.
\<close>

theorem loading_flag_interval_counterexample:
  "length (handleSendMessage sample_env (typed ''What RPM?'')) = 11
   \<and> handleSendMessage sample_env (typed ''What RPM?'') ! 3 = Call (SendMessageStream ''What RPM?'')
   \<and> replay (take 4 (handleSendMessage sample_env (typed ''What RPM?''))
            @ take 4 (handleSendMessage sample_env (typed ''What RPM?''))
            @ drop 4 (handleSendMessage sample_env (typed ''What RPM?'')))
        (typed ''What RPM?'')
       = Inr \<lparr>messages = messages initial_state @
                 [\<lparr>text = ''What RPM?'', sender = User, imageUrl = None\<rparr>,
                  \<lparr>text = ''What RPM?'', sender = User, imageUrl = None\<rparr>,
                  \<lparr>text = ''Run it at 12000 rpm.'', sender = Ai, imageUrl = None\<rparr>],
              input = [], isLoading = False\<rparr>"
  by code_simp

section \<open>Fragment by fragment\<close>

lemma consume_nth:
  assumes "j < length (chunk_texts st)"
  shows "fst (consume st acc) ! Suc (2 * j) = SetLastText (acc @ concat (take (Suc j) (chunk_texts st)))"
  using assms
proof (induction st arbitrary: j acc)
  case (Chunk t rest)
  show ?case
  proof (cases j)
    case 0
    then show ?thesis by (simp add: split_def Let_def)
  next
    case (Suc j')
    then have "j' < length (chunk_texts rest)" using Chunk.prems by simp
    from Chunk.IH [OF this, of "acc @ text_of_chunk t"] show ?thesis
      by (simp add: Suc split_def Let_def)
  qed
qed simp_all

lemma set_last_text_frame:
  assumes "ms \<noteq> []"
  shows "\<exists>ms'. set_last_text t ms = Inr ms'
           \<and> length ms' = length ms
           \<and> (\<forall>i < length ms - 1. ms' ! i = ms ! i)
           \<and> last ms' = (last ms)\<lparr>text := t\<rparr>"
  using assms by (simp add: set_last_text_def last_list_update last_conv_nth)

text \<open>
  What fragment processing does, for every stream. The update made for a chunk writes
  only the text of the last message: on a non-empty transcript it keeps the length,
  every earlier message, the last message's sender and image, the draft and the loading
  flag. In a conversational run the update for chunk \<open>k + 1\<close> carries the concatenation
  of what line 93 appended for the first \<open>k + 1\<close> chunks, and after \<open>k\<close> chunks the
  transcript is the old one, the user message and the assistant message with the
  concatenation for the first \<open>k\<close> chunks. For a chunk with text the appended string is
  its text; for one without it is the word \<open>undefined\<close>.
\<close>

theorem fragment_processing:
  "(messages s0 \<noteq> [] \<longrightarrow>
      (\<exists>s'. apply_event (SetLastText t) s0 = Inr s'
         \<and> length (messages s') = length (messages s0)
         \<and> (\<forall>i < length (messages s0) - 1. messages s' ! i = messages s0 ! i)
         \<and> text (last (messages s')) = t
         \<and> sender (last (messages s')) = sender (last (messages s0))
         \<and> imageUrl (last (messages s')) = imageUrl (last (messages s0))
         \<and> input s' = input s0
         \<and> isLoading s' = isLoading s0))
   \<and> (trim (input s) \<noteq> [] \<and> \<not> isLoading s \<and> extract_prompt (input s) = []
        \<and> chat_current b \<and> sendMessageStream b (input s) = Fulfilled st \<longrightarrow>
      (\<forall>k < length (chunk_texts st).
         handleSendMessage b s ! (6 + 2 * k) = SetLastText (concat (take (Suc k) (chunk_texts st))))
      \<and> (\<forall>k \<le> length (chunk_texts st).
           replay (take (5 + 2 * k) (handleSendMessage b s)) s
           = Inr \<lparr>messages = messages s @
                     [\<lparr>text = input s, sender = User, imageUrl = None\<rparr>,
                      \<lparr>text = concat (take k (chunk_texts st)), sender = Ai, imageUrl = None\<rparr>],
                  input = [], isLoading = True\<rparr>))"
proof (intro conjI impI)
  assume "messages s0 \<noteq> []"
  from set_last_text_frame [OF this, of t]
  show "\<exists>s'. apply_event (SetLastText t) s0 = Inr s'
         \<and> length (messages s') = length (messages s0)
         \<and> (\<forall>i < length (messages s0) - 1. messages s' ! i = messages s0 ! i)
         \<and> text (last (messages s')) = t
         \<and> sender (last (messages s')) = sender (last (messages s0))
         \<and> imageUrl (last (messages s')) = imageUrl (last (messages s0))
         \<and> input s' = input s0
         \<and> isLoading s' = isLoading s0"
    by auto
next
  assume run: "trim (input s) \<noteq> [] \<and> \<not> isLoading s \<and> extract_prompt (input s) = []
        \<and> chat_current b \<and> sendMessageStream b (input s) = Fulfilled st"
  obtain ms i where s: "s = \<lparr>messages = ms, input = i, isLoading = False\<rparr>"
    using run by (cases s) simp
  let ?u = "\<lparr>text = i, sender = User, imageUrl = None\<rparr>"
  let ?p = "\<lparr>text = [], sender = Ai, imageUrl = None\<rparr>"
  define cs where "cs = fst (consume st [])"
  define tail where "tail = catch_block (snd (try_block b i)) @ [SetIsLoading False]"
  have tb: "try_block b i = chat_path b i" using run by (simp add: s try_block_chat)
  have f: "fst (chat_path b i) = Call (SendMessageStream i) # Append ?p # cs"
    using chat_path_Fulfilled(1) [of b i st] run by (simp add: s cs_def)
  have evs: "handleSendMessage b s
      = Append ?u # SetInput [] # SetIsLoading True # Call (SendMessageStream i) # Append ?p # cs @ tail"
    using run by (simp add: handle_accepted s tb f tail_def)
  have len: "length cs = Suc (2 * length (chunk_texts st))"
    by (simp add: cs_def length_consume)
  show "\<forall>k < length (chunk_texts st).
         handleSendMessage b s ! (6 + 2 * k) = SetLastText (concat (take (Suc k) (chunk_texts st)))"
  proof (intro allI impI)
    fix k assume k: "k < length (chunk_texts st)"
    have six: "6 + 2 * k = Suc (Suc (Suc (Suc (Suc (Suc (2 * k))))))" by simp
    have "handleSendMessage b s ! (6 + 2 * k) = (cs @ tail) ! Suc (2 * k)"
      unfolding evs six by simp
    also have "\<dots> = cs ! Suc (2 * k)" using k len by (simp add: nth_append)
    also have "\<dots> = SetLastText ([] @ concat (take (Suc k) (chunk_texts st)))"
      unfolding cs_def using k by (rule consume_nth)
    finally show "handleSendMessage b s ! (6 + 2 * k) = SetLastText (concat (take (Suc k) (chunk_texts st)))"
      by simp
  qed
  show "\<forall>k \<le> length (chunk_texts st).
           replay (take (5 + 2 * k) (handleSendMessage b s)) s
           = Inr \<lparr>messages = messages s @
                     [\<lparr>text = input s, sender = User, imageUrl = None\<rparr>,
                      \<lparr>text = concat (take k (chunk_texts st)), sender = Ai, imageUrl = None\<rparr>],
                  input = [], isLoading = True\<rparr>"
  proof (intro allI impI)
    fix k assume k: "k \<le> length (chunk_texts st)"
    have five: "5 + 2 * k = Suc (Suc (Suc (Suc (Suc (2 * k)))))" by simp
    have tk: "take (5 + 2 * k) (handleSendMessage b s)
        = Append ?u # SetInput [] # SetIsLoading True # Call (SendMessageStream i) # Append ?p
            # take (2 * k) cs"
      unfolding evs five using k len by simp
    have "replay (take (2 * k) (fst (consume st [])))
            \<lparr>messages = (ms @ [?u]) @ [?p], input = [], isLoading = True\<rparr>
          = Inr \<lparr>messages = (ms @ [?u]) @ [?p\<lparr>text := [] @ concat (take k (chunk_texts st))\<rparr>],
                 input = [], isLoading = True\<rparr>"
      using _ k by (rule replay_consume_take) simp
    then show "replay (take (5 + 2 * k) (handleSendMessage b s)) s
           = Inr \<lparr>messages = messages s @
                     [\<lparr>text = input s, sender = User, imageUrl = None\<rparr>,
                      \<lparr>text = concat (take k (chunk_texts st)), sender = Ai, imageUrl = None\<rparr>],
                  input = [], isLoading = True\<rparr>"
      unfolding tk by (simp add: s cs_def)
  qed
qed


theorem fragment_processing_witness:
  "(\<exists>s'. apply_event (SetLastText ''Run'') initial_state = Inr s'
        \<and> length (messages s') = 1
        \<and> text (last (messages s')) = ''Run''
        \<and> sender (last (messages s')) = Ai
        \<and> imageUrl (last (messages s')) = None)
   \<and> handleSendMessage sample_env (typed ''What RPM?'') ! 8 = SetLastText ''Run it at 12000 rpm.''
   \<and> replay (take 7 (handleSendMessage sample_env (typed ''What RPM?''))) (typed ''What RPM?'')
       = Inr \<lparr>messages = messages initial_state @
                 [\<lparr>text = ''What RPM?'', sender = User, imageUrl = None\<rparr>,
                  \<lparr>text = ''Run it '', sender = Ai, imageUrl = None\<rparr>],
              input = [], isLoading = True\<rparr>"
proof -
  have ne: "messages initial_state \<noteq> []" by (simp add: initial_state_def)
  have run: "trim (input (typed ''What RPM?'')) \<noteq> [] \<and> \<not> isLoading (typed ''What RPM?'')
      \<and> extract_prompt (input (typed ''What RPM?'')) = [] \<and> chat_current sample_env
      \<and> sendMessageStream sample_env (input (typed ''What RPM?''))
          = Fulfilled (Chunk (Some ''Run it '') (Chunk (Some ''at 12000 rpm.'') Done))"
    by code_simp
  note T = fragment_processing [of initial_state "''Run''" "typed ''What RPM?''" sample_env
      "Chunk (Some ''Run it '') (Chunk (Some ''at 12000 rpm.'') Done)"]
  from T ne have frame: "\<exists>s'. apply_event (SetLastText ''Run'') initial_state = Inr s'
        \<and> length (messages s') = length (messages initial_state)
        \<and> text (last (messages s')) = ''Run''
        \<and> sender (last (messages s')) = sender (last (messages initial_state))
        \<and> imageUrl (last (messages s')) = imageUrl (last (messages initial_state))"
    by blast
  from T run have upd: "\<forall>k < length (chunk_texts (Chunk (Some ''Run it '') (Chunk (Some ''at 12000 rpm.'') Done))).
      handleSendMessage sample_env (typed ''What RPM?'') ! (6 + 2 * k)
      = SetLastText (concat (take (Suc k) (chunk_texts (Chunk (Some ''Run it '') (Chunk (Some ''at 12000 rpm.'') Done)))))"
    by blast
  from T run have sts: "\<forall>k \<le> length (chunk_texts (Chunk (Some ''Run it '') (Chunk (Some ''at 12000 rpm.'') Done))).
      replay (take (5 + 2 * k) (handleSendMessage sample_env (typed ''What RPM?''))) (typed ''What RPM?'')
      = Inr \<lparr>messages = messages (typed ''What RPM?'') @
                [\<lparr>text = input (typed ''What RPM?''), sender = User, imageUrl = None\<rparr>,
                 \<lparr>text = concat (take k (chunk_texts (Chunk (Some ''Run it '') (Chunk (Some ''at 12000 rpm.'') Done)))),
                  sender = Ai, imageUrl = None\<rparr>],
             input = [], isLoading = True\<rparr>"
    by blast
  from frame have "\<exists>s'. apply_event (SetLastText ''Run'') initial_state = Inr s'
        \<and> length (messages s') = 1
        \<and> text (last (messages s')) = ''Run''
        \<and> sender (last (messages s')) = Ai
        \<and> imageUrl (last (messages s')) = None"
    by (simp add: initial_state_def)
  moreover from upd [rule_format, of 1]
  have "handleSendMessage sample_env (typed ''What RPM?'') ! 8 = SetLastText ''Run it at 12000 rpm.''"
    by simp
  moreover from sts [rule_format, of 1]
  have "replay (take 7 (handleSendMessage sample_env (typed ''What RPM?''))) (typed ''What RPM?'')
       = Inr \<lparr>messages = messages initial_state @
                 [\<lparr>text = ''What RPM?'', sender = User, imageUrl = None\<rparr>,
                  \<lparr>text = ''Run it '', sender = Ai, imageUrl = None\<rparr>],
              input = [], isLoading = True\<rparr>"
    by (simp add: typed_def)
  ultimately show ?thesis by blast
qed

text \<open>
  C9: each fragment arrival is to replace the text of the last message by the
  concatenation of the fragments received so far, and to change nothing else. The frame
  part holds, as shown above. The text part fails for a chunk that carries no text:
  line 93 appends \<open>chunk.text\<close> without a guard, and after the fragment \<open>Run it \<close> and one
  such chunk the update writes \<open>Run it undefined\<close>, not the one fragment received.
\<close>

theorem fragment_processing_textless:
  "sendMessageStream textless_env ''What RPM?'' = Fulfilled (Chunk (Some ''Run it '') (Chunk None Done))
   \<and> fragments (Chunk (Some ''Run it '') (Chunk None Done)) = [Some ''Run it '', None]
   \<and> handleSendMessage textless_env (typed ''What RPM?'') ! 6 = SetLastText ''Run it ''
   \<and> handleSendMessage textless_env (typed ''What RPM?'') ! 8 = SetLastText ''Run it undefined''
   \<and> replay (take 9 (handleSendMessage textless_env (typed ''What RPM?''))) (typed ''What RPM?'')
       = Inr \<lparr>messages = messages initial_state @
                 [\<lparr>text = ''What RPM?'', sender = User, imageUrl = None\<rparr>,
                  \<lparr>text = ''Run it undefined'', sender = Ai, imageUrl = None\<rparr>],
              input = [], isLoading = True\<rparr>"
  by code_simp

end
